theory Spec2Isabelle
  imports Main "HOL-Library.Word" "HOL-Library.AList"
begin

unbundle bit_operations_syntax

section \<open>The boot-stream tool \<^verbatim>\<open>mlx-mkbfb.py\<close>\<close>

text \<open>
  A shallow embedding of \<^verbatim>\<open>src/mlx-mkbfb.py\<close>. Python's unbounded integers are
  \<^typ>\<open>int\<close>, byte strings are lists of 8-bit words, \<^verbatim>\<open>str\<close> values are
  \<^typ>\<open>string\<close> (read as code points below 256), dictionaries are association lists
  in insertion order (\<^const>\<open>AList.update\<close> overwrites in place or appends, as a Python
  \<^verbatim>\<open>dict\<close> does), and every exception is a value of the type \<open>error\<close>.
  A binary file opened for reading is the list of bytes not yet read; \<^verbatim>\<open>read(n)\<close>
  hands out \<^term>\<open>take n s\<close> and leaves \<^term>\<open>drop n s\<close>.
\<close>

subsection \<open>Values and exceptions\<close>

type_synonym byte = "8 word"
type_synonym bytes = "byte list"

text \<open>The arguments of the \<^verbatim>\<open>BadHdr\<close> messages. The message for a bad minor version
  prints \<^verbatim>\<open>self.major\<close>, and so does the model.\<close>

datatype bad_hdr =
    HdrTooShort
  | BadMagic int
  | BadMajor int
  | BadMinor int
  | BadLength int

text \<open>\<open>ImageTooShort id\<close> and \<open>CrcMismatch id stored computed\<close> are the two plain
  \<^verbatim>\<open>Exception\<close>s of \<^verbatim>\<open>Image.__set_from_stream\<close>, with the values their messages
  print. The others are exceptions of the Python runtime: a failed dictionary lookup
  (by name or by numeric ID), \<^verbatim>\<open>int()\<close> on a non-decimal string, a file that cannot be
  opened, \<^verbatim>\<open>struct.pack\<close> on a value out of range, and writing \<^verbatim>\<open>None\<close>.\<close>

datatype error =
    NoHdr
  | BadHdr bad_hdr
  | ImageTooShort int
  | CrcMismatch int int int
  | KeyError_name string
  | KeyError_id int
  | ValueError
  | OSError string
  | StructError
  | TypeError

subsection \<open>The image type table\<close>

definition image_list :: "(string \<times> string \<times> int) list" where
  "image_list = [
    (''psc-bl'', ''PSC bootloader image'', 36),
    (''psc-fw'', ''PSC framework image'', 37),
    (''bl2r-cert'', ''RIoT Core (BL2R) content certificate'', 31),
    (''bl2r'', ''RIoT Core (BL2R) bin'', 30),
    (''bl2-cert'', ''Trusted Boot Firmware BL2 certificate'', 6),
    (''bl2'', ''Trusted Boot Firmware BL2 bin'', 1),
    (''sys'', ''Running system's part number or PSID'', 29),
    (''ddr-cert'', ''DDR Images Content Certificate'', 38),
    (''ddr_ini'', ''File From Which Will Load DDR (pseudo spd) Parameters'', 32),
    (''snps_images'', ''Combined SNPS Images for all DIMM types'', 33),
    (''ddr_ate_imem'', ''Analog Test Engine INSTRUCTIONS'', 34),
    (''ddr_ate_dmem'', ''Analog Test Engine DATA'', 35),
    (''bl30-key-cert'', ''SCP Firmware BL3-0 key certificate'', 8),
    (''bl30-cert'', ''SCP Firmware BL3-0 certificate'', 12),
    (''bl30'', ''SCP Firmware BL3-0'', 2),
    (''trusted-key-cert'', ''Trusted key certificate'', 7),
    (''bl31-key-cert'', ''EL3 Runtime Firmware BL3-1 key certificate'', 9),
    (''bl31-cert'', ''EL3 Runtime Firmware BL3-1 content certificate'', 13),
    (''bl31'', ''EL3 Runtime Firmware BL3-1 bin'', 3),
    (''psc-app'', ''PSC application image'', 39),
    (''bl32-key-cert'', ''Secure Payload BL3-2 (Trusted OS) key certificate'', 10),
    (''bl32-cert'', ''Secure Payload BL3-2 (Trusted OS) content certificate'', 14),
    (''bl32'', ''Secure Payload BL3-2 (Trusted OS) bin'', 4),
    (''bl33-key-cert'', ''Non-Trusted Firmware BL3-3 key certificate'', 11),
    (''bl33-cert'', ''Non-Trusted Firmware BL3-3 content certificate'', 15),
    (''bl33'', ''Non-Trusted Firmware BL3-3 bin'', 5),
    (''capsule'', ''UEFI capsule image'', 52),
    (''boot-acpi'', ''Name of the ACPI table'', 55),
    (''boot-dtb'', ''Name of the dtb file'', 56),
    (''boot-desc'', ''Default boot menu item description'', 57),
    (''boot-path'', ''Boot image path'', 58),
    (''boot-args'', ''Arguments for boot image'', 59),
    (''boot-timeout'', ''Boot menu timeout'', 60),
    (''uefi-tests'', ''Specify what UEFI tests to run'', 61),
    (''ramdisk'', ''RAM Disk image'', 54),
    (''image'', ''Boot image'', 62),
    (''initramfs'', ''In-memory filesystem'', 63)]"

text \<open>\<^verbatim>\<open>image_table\<close> maps an option name to (description, image ID) and
  \<^verbatim>\<open>rev_image_table\<close> an image ID to (option name, description). Python's
  \<^verbatim>\<open>dict(...)\<close> keeps the last of two equal keys and \<^const>\<open>map_of\<close> the first; the
  names and the IDs of the table are distinct (\<open>image_list_names_distinct\<close>,
  \<open>image_list_ids_distinct\<close> below), so the two agree.\<close>

definition image_table :: "string \<rightharpoonup> (string \<times> int)" where
  "image_table = map_of (map (\<lambda>(x, y, z). (x, (y, z))) image_list)"

definition rev_image_table :: "int \<rightharpoonup> (string \<times> string)" where
  "rev_image_table = map_of (map (\<lambda>(x, y, z). (z, (x, y))) image_list)"

definition MAX_VER :: int where "MAX_VER = 2"
definition MAJOR_VER :: int where "MAJOR_VER = 1"
definition MINOR_VER :: int where "MINOR_VER = 2"

definition num_padding_bytes :: "int \<Rightarrow> int" where
  "num_padding_bytes len = ((len + 7) AND NOT 7) - len"

subsection \<open>\<^verbatim>\<open>struct.pack\<close> and \<^verbatim>\<open>struct.unpack\<close> with format \<^verbatim>\<open><QQQ\<close>\<close>

fun le_bytes :: "nat \<Rightarrow> int \<Rightarrow> bytes" where
  "le_bytes 0 w = []"
| "le_bytes (Suc n) w = word_of_int w # le_bytes n (drop_bit 8 w)"

fun le_int :: "bytes \<Rightarrow> int" where
  "le_int [] = 0"
| "le_int (b # bs) = uint b OR push_bit 8 (le_int bs)"

text \<open>\<^verbatim>\<open>struct.pack\<close> raises \<^verbatim>\<open>struct.error\<close> for an argument outside 0 .. 2^64 - 1.\<close>

definition struct_pack_QQQ :: "int \<Rightarrow> int \<Rightarrow> int \<Rightarrow> error + bytes" where
  "struct_pack_QQQ w0 w1 w2 =
     (if 0 \<le> w0 \<and> w0 < 2 ^ 64 \<and> 0 \<le> w1 \<and> w1 < 2 ^ 64 \<and> 0 \<le> w2 \<and> w2 < 2 ^ 64
      then Inr (le_bytes 8 w0 @ le_bytes 8 w1 @ le_bytes 8 w2)
      else Inl StructError)"

text \<open>Only called on exactly 24 bytes.\<close>

definition struct_unpack_QQQ :: "bytes \<Rightarrow> int \<times> int \<times> int" where
  "struct_unpack_QQQ instr =
     (le_int (take 8 instr), le_int (take 8 (drop 8 instr)), le_int (take 8 (drop 16 instr)))"

subsection \<open>\<^verbatim>\<open>binascii.crc32\<close>\<close>

text \<open>The standard library's CRC-32 (reflected polynomial \<open>0xEDB88320\<close>, initial value and
  final complement all ones), continued from the running value \<open>crc\<close>.\<close>

definition crc32_bit :: "32 word \<Rightarrow> 32 word" where
  "crc32_bit c = (if bit c 0 then drop_bit 1 c XOR 0xEDB88320 else drop_bit 1 c)"

definition crc32_byte :: "byte \<Rightarrow> 32 word \<Rightarrow> 32 word" where
  "crc32_byte b c = (crc32_bit ^^ 8) (c XOR ucast b)"

definition crc32 :: "bytes \<Rightarrow> int \<Rightarrow> int" where
  "crc32 data crc = uint (NOT (fold crc32_byte data (NOT (word_of_int crc))))"

subsection \<open>class \<^verbatim>\<open>ImageHdr\<close>\<close>

record ImageHdr =
  major :: int
  minor :: int
  image_id :: int
  next_img_ver :: int
  cur_img_ver :: int
  image_len :: int
  image_crc :: int
  following_images :: int

definition magic :: int where "magic = 0x13026642"
definition default_major :: int where "default_major = MAJOR_VER"
definition default_minor :: int where "default_minor = MINOR_VER"

text \<open>The class attribute \<^verbatim>\<open>ImageHdr.length\<close>.\<close>

definition hdr_length :: int where "hdr_length = 24"

text \<open>\<^verbatim>\<open>ImageHdr()\<close> with every keyword argument at its default.\<close>

definition ImageHdr_init :: ImageHdr where
  "ImageHdr_init = \<lparr>major = default_major, minor = default_minor, image_id = 0,
     next_img_ver = 0, cur_img_ver = 0, image_len = 0, image_crc = 0, following_images = 0\<rparr>"

definition ImageHdr_get_bits :: "ImageHdr \<Rightarrow> error + bytes" where
  "ImageHdr_get_bits h =
     (let w0 = push_bit 0 (magic AND 0xFFFFFFFF) OR
               push_bit 32 (major h AND 0xF) OR
               push_bit 36 (minor h AND 0xF) OR
               push_bit 44 (next_img_ver h AND 0xF) OR
               push_bit 48 (cur_img_ver h AND 0xF) OR
               push_bit 52 ((hdr_length div 8) AND 0xF) OR
               push_bit 56 (image_id h AND 0xFF);
          w1 = push_bit 0 (image_len h AND 0xFFFFFFFF) OR
               push_bit 32 (image_crc h AND 0xFFFFFFFF);
          w2 = following_images h
      in struct_pack_QQQ w0 w1 w2)"

text \<open>The first two header words as \<^const>\<open>ImageHdr_get_bits\<close> computes them, as
  functions of the fields.\<close>

definition hdr_w0 :: "int \<Rightarrow> int \<Rightarrow> int \<Rightarrow> int \<Rightarrow> int \<Rightarrow> int" where
  "hdr_w0 ma mi nx cu ii =
     push_bit 0 (magic AND 0xFFFFFFFF) OR
     push_bit 32 (ma AND 0xF) OR
     push_bit 36 (mi AND 0xF) OR
     push_bit 44 (nx AND 0xF) OR
     push_bit 48 (cu AND 0xF) OR
     push_bit 52 ((hdr_length div 8) AND 0xF) OR
     push_bit 56 (ii AND 0xFF)"

definition hdr_w1 :: "int \<Rightarrow> int \<Rightarrow> int" where
  "hdr_w1 len crc = push_bit 0 (len AND 0xFFFFFFFF) OR push_bit 32 (crc AND 0xFFFFFFFF)"

text \<open>\<^verbatim>\<open>ImageHdr.__set_from_file\<close>: the result is the header and the rest of the file. The
  last test compares the 4-bit field with \<^verbatim>\<open>self.length / 8\<close>, the float \<open>3.0\<close>, which
  Python compares with an \<^verbatim>\<open>int\<close> by value.\<close>

definition ImageHdr_set_from_file :: "bytes \<Rightarrow> error + (ImageHdr \<times> bytes)" where
  "ImageHdr_set_from_file infile =
     (let instr = take (nat hdr_length) infile;
          infile' = drop (nat hdr_length) infile
      in if instr = [] then Inl NoHdr
         else if int (length instr) < hdr_length then Inl (BadHdr HdrTooShort)
         else
           let (w0, w1, w2) = struct_unpack_QQQ instr;
               magic' = w0 AND 0xFFFFFFFF;
               major' = drop_bit 32 w0 AND 0xF;
               minor' = drop_bit 36 w0 AND 0xF;
               length' = drop_bit 52 w0 AND 0xF;
               h = \<lparr>major = major', minor = minor',
                    image_id = drop_bit 56 w0 AND 0xFF,
                    next_img_ver = (if minor' \<le> 2 then drop_bit 44 w0 AND 0xF else 0),
                    cur_img_ver = (if minor' \<le> 2 then drop_bit 48 w0 AND 0xF else 0),
                    image_len = w1 AND 0xFFFFFFFF,
                    image_crc = drop_bit 32 w1 AND 0xFFFFFFFF,
                    following_images = w2\<rparr>
           in if magic' \<noteq> magic then Inl (BadHdr (BadMagic magic'))
              else if major h \<noteq> default_major then Inl (BadHdr (BadMajor (major h)))
              else if minor h > default_minor then Inl (BadHdr (BadMinor (major h)))
              else if length' \<noteq> hdr_length div 8 then Inl (BadHdr (BadLength length'))
              else Inr (h, infile'))"

subsection \<open>class \<^verbatim>\<open>Image\<close>\<close>

text \<open>\<^verbatim>\<open>bits\<close> is \<^verbatim>\<open>None\<close> in an image made with neither a stream nor a file name.\<close>

record Image =
  header :: ImageHdr
  bits :: "bytes option"

definition get_image_id :: "Image \<Rightarrow> int" where
  "get_image_id img = image_id (header img)"

definition get_image_ver :: "Image \<Rightarrow> int" where
  "get_image_ver img = cur_img_ver (header img)"

definition get_image_length :: "Image \<Rightarrow> int" where
  "get_image_length img = image_len (header img)"

definition set_next_image_ver :: "Image \<Rightarrow> int \<Rightarrow> Image" where
  "set_next_image_ver img v = img\<lparr>header := (header img)\<lparr>next_img_ver := v\<rparr>\<rparr>"

definition set_following_images :: "Image \<Rightarrow> int \<Rightarrow> Image" where
  "set_following_images img follow_map = img\<lparr>header := (header img)\<lparr>following_images := follow_map\<rparr>\<rparr>"

definition get_padding :: "Image \<Rightarrow> bytes" where
  "get_padding img = replicate (nat (num_padding_bytes (get_image_length img))) 0"

text \<open>\<^verbatim>\<open>Image.write\<close> appends to the output file with three calls of \<^verbatim>\<open>write\<close>; the first
  two can raise, and what was written before stays in the file.\<close>

definition Image_write :: "Image \<Rightarrow> bytes \<Rightarrow> error option \<times> bytes" where
  "Image_write img outfile =
     (case ImageHdr_get_bits (header img) of
        Inl e \<Rightarrow> (Some e, outfile)
      | Inr hb \<Rightarrow>
          (case bits img of
             None \<Rightarrow> (Some TypeError, outfile @ hb)
           | Some b \<Rightarrow> (None, outfile @ hb @ b @ get_padding img)))"

text \<open>\<^verbatim>\<open>Image.__set_from_stream\<close>: the image and the rest of the stream. The lengths read are
  never negative (a 32-bit field, and a padding count of 0 to 7).\<close>

definition Image_set_from_stream :: "bytes \<Rightarrow> error + (Image \<times> bytes)" where
  "Image_set_from_stream instream =
     (case ImageHdr_set_from_file instream of
        Inl e \<Rightarrow> Inl e
      | Inr (h, s1) \<Rightarrow>
          let len = image_len h;
              bs = take (nat len) s1;
              s2 = drop (nat len) s1
          in if int (length bs) \<noteq> len then Inl (ImageTooShort (image_id h))
             else
               let crc = crc32 bs 0;
                   padding = take (nat (num_padding_bytes len)) s2;
                   s3 = drop (nat (num_padding_bytes len)) s2;
                   crc = crc32 padding crc;
                   crc = crc AND 0xFFFFFFFF
               in if crc \<noteq> image_crc h
                  then Inl (CrcMismatch (image_id h) (image_crc h) crc)
                  else Inr (\<lparr>header = h, bits = Some bs\<rparr>, s3))"

subsection \<open>The first record of a stream, field by field\<close>

text \<open>For stating what the parser does with a stream \<open>s\<close>: the three little-endian
  words of its first 24 bytes, the header fields at their bit positions, the payload and the
  padding that follow. The padding length is written as the specification has it,
  \<open>(8 - len mod 8) mod 8\<close>.\<close>

definition stream_word0 :: "bytes \<Rightarrow> int" where
  "stream_word0 s = le_int (take 8 s)"

definition stream_word1 :: "bytes \<Rightarrow> int" where
  "stream_word1 s = le_int (take 8 (drop 8 s))"

definition stream_word2 :: "bytes \<Rightarrow> int" where
  "stream_word2 s = le_int (take 8 (drop 16 s))"

definition stream_magic :: "bytes \<Rightarrow> int" where
  "stream_magic s = stream_word0 s AND 0xFFFFFFFF"

definition stream_major :: "bytes \<Rightarrow> int" where
  "stream_major s = drop_bit 32 (stream_word0 s) AND 0xF"

definition stream_minor :: "bytes \<Rightarrow> int" where
  "stream_minor s = drop_bit 36 (stream_word0 s) AND 0xF"

definition stream_hdr_len :: "bytes \<Rightarrow> int" where
  "stream_hdr_len s = drop_bit 52 (stream_word0 s) AND 0xF"

definition stream_image_id :: "bytes \<Rightarrow> int" where
  "stream_image_id s = drop_bit 56 (stream_word0 s) AND 0xFF"

definition stream_image_len :: "bytes \<Rightarrow> int" where
  "stream_image_len s = stream_word1 s AND 0xFFFFFFFF"

definition stream_image_crc :: "bytes \<Rightarrow> int" where
  "stream_image_crc s = drop_bit 32 (stream_word1 s) AND 0xFFFFFFFF"

definition stream_header :: "bytes \<Rightarrow> ImageHdr" where
  "stream_header s =
     \<lparr>major = stream_major s, minor = stream_minor s, image_id = stream_image_id s,
      next_img_ver = drop_bit 44 (stream_word0 s) AND 0xF,
      cur_img_ver = drop_bit 48 (stream_word0 s) AND 0xF,
      image_len = stream_image_len s, image_crc = stream_image_crc s,
      following_images = stream_word2 s\<rparr>"

definition stream_pad_len :: "bytes \<Rightarrow> int" where
  "stream_pad_len s = (8 - stream_image_len s mod 8) mod 8"

definition stream_payload :: "bytes \<Rightarrow> bytes" where
  "stream_payload s = take (nat (stream_image_len s)) (drop 24 s)"

definition stream_padding :: "bytes \<Rightarrow> bytes" where
  "stream_padding s =
     take (nat (stream_pad_len s)) (drop (24 + nat (stream_image_len s)) s)"

text \<open>The number of bytes of the first record: header, payload and padding.\<close>

definition stream_record_len :: "bytes \<Rightarrow> nat" where
  "stream_record_len s = 24 + nat (stream_image_len s) + nat (stream_pad_len s)"

subsection \<open>Strings\<close>

text \<open>\<^verbatim>\<open>bytes(s, 'utf-8')\<close> for code points below 256.\<close>

definition utf8_encode :: "string \<Rightarrow> bytes" where
  "utf8_encode s = concat (map (\<lambda>c. let n = (of_char c :: nat) in
       if n < 128 then [of_nat n] else [0xC0 OR of_nat (n div 64), 0x80 OR of_nat (n mod 64)]) s)"

text \<open>\<^verbatim>\<open>idstr.rsplit('-', 1)\<close> for a string that contains a dash.\<close>

definition rsplit_dash :: "string \<Rightarrow> string \<times> string" where
  "rsplit_dash s =
     (rev (tl (dropWhile (\<lambda>c. c \<noteq> CHR ''-'') (rev s))),
      rev (takeWhile (\<lambda>c. c \<noteq> CHR ''-'') (rev s)))"

text \<open>\<^verbatim>\<open>str.isdigit\<close>: below code point 256 the decimal digits and the superscripts
  \<open>U+00B2\<close>, \<open>U+00B3\<close>, \<open>U+00B9\<close>, which \<^verbatim>\<open>int()\<close> then rejects.\<close>

definition is_decimal :: "char \<Rightarrow> bool" where
  "is_decimal c = (48 \<le> (of_char c :: nat) \<and> (of_char c :: nat) \<le> 57)"

definition str_isdigit :: "string \<Rightarrow> bool" where
  "str_isdigit s = (s \<noteq> [] \<and>
     list_all (\<lambda>c. is_decimal c \<or> (of_char c :: nat) \<in> set [0xB2, 0xB3, 0xB9]) s)"

definition py_int :: "string \<Rightarrow> error + int" where
  "py_int s = (if s \<noteq> [] \<and> list_all is_decimal s
     then Inr (foldl (\<lambda>n c. 10 * n + (of_char c - 48)) 0 s)
     else Inl ValueError)"

text \<open>The files of the file system: \<open>fs name\<close> is the content of a file that can be opened
  for reading.\<close>

type_synonym files = "string \<rightharpoonup> bytes"

text \<open>\<^verbatim>\<open>Image.__set_from_file\<close>. The payload is read first, the type name is resolved
  after.\<close>

definition Image_set_from_file :: "files \<Rightarrow> string \<Rightarrow> string \<Rightarrow> error + Image" where
  "Image_set_from_file fs infile idstr =
     (case (if take 1 infile = ''='' then Inr (utf8_encode (drop 1 infile))
            else (case fs infile of None \<Rightarrow> Inl (OSError infile) | Some content \<Rightarrow> Inr content)) of
        Inl e \<Rightarrow> Inl e
      | Inr bs \<Rightarrow>
          let len = int (length bs);
              crc = crc32 bs 0;
              crc = crc32 (replicate (nat (num_padding_bytes len)) 0) crc;
              crc = crc AND 0xFFFFFFFF;
              (img, ver) = rsplit_dash idstr;
              suffixed = (CHR ''-'' \<in> set idstr \<and> length ver > 1 \<and> hd ver = CHR ''v'' \<and>
                          str_isdigit (tl ver) \<and> img \<in> dom image_table)
          in (case (if suffixed then py_int (tl ver) else Inr 0) of
               Inl e \<Rightarrow> Inl e
             | Inr img_ver \<Rightarrow>
                 (let idstr = (if suffixed then img else idstr)
                  in (case image_table idstr of
                       None \<Rightarrow> Inl (KeyError_name idstr)
                     | Some (desc, iid) \<Rightarrow>
                         Inr \<lparr>header = ImageHdr_init\<lparr>image_id := iid, image_len := len,
                                        image_crc := crc, cur_img_ver := img_ver\<rparr>,
                              bits = Some bs\<rparr>))))"

text \<open>\<^verbatim>\<open>Image(infile=fn, idstr=idver)\<close>: an empty file name is false in Python, and the
  constructor then makes an image with a default header and no data. (A file object given as
  \<^verbatim>\<open>instream\<close> is always true, so \<^verbatim>\<open>Image(instream=f)\<close> is \<^const>\<open>Image_set_from_stream\<close>.)\<close>

definition Image_init_infile :: "files \<Rightarrow> string \<Rightarrow> string \<Rightarrow> error + Image" where
  "Image_init_infile fs infile idstr =
     (if infile \<noteq> [] then Image_set_from_file fs infile idstr
      else Inr \<lparr>header = ImageHdr_init, bits = None\<rparr>)"

subsection \<open>\<^verbatim>\<open>make_stream\<close>\<close>

text \<open>\<^verbatim>\<open>infile_images\<close> and \<^verbatim>\<open>cmdline_images\<close>: a dictionary from option name to a
  dictionary from version number to image.\<close>

type_synonym versions = "(int \<times> Image) list"
type_synonym images_dict = "(string \<times> versions) list"

text \<open>\<^verbatim>\<open>if id not in d: d[id] = {}\<close> followed by \<^verbatim>\<open>d[id][ver] = img\<close>.\<close>

definition store_image :: "images_dict \<Rightarrow> string \<Rightarrow> int \<Rightarrow> Image \<Rightarrow> images_dict" where
  "store_image d name ver img =
     (let d' = (if name \<notin> fst ` set d then AList.update name [] d else d)
      in AList.update name (AList.update ver img (the (map_of d' name))) d')"

text \<open>\<^verbatim>\<open>images.update(other)\<close>.\<close>

definition dict_update :: "versions \<Rightarrow> versions \<Rightarrow> versions" where
  "dict_update images other = fold (\<lambda>(k, v). AList.update k v) other images"

text \<open>The \<^verbatim>\<open>while True\<close> loop that reads one input file. \<^verbatim>\<open>NoHdr\<close> ends it, any other
  exception leaves \<^verbatim>\<open>make_stream\<close>. An image ID taken from a header is never negative,
  so the shift \<^verbatim>\<open>1 << id\<close> is defined.\<close>

function read_infile :: "bytes \<Rightarrow> images_dict \<Rightarrow> int \<Rightarrow> error + (images_dict \<times> int)" where
  "read_infile infile infile_images fim_map =
     (case Image_set_from_stream infile of
        Inl e \<Rightarrow> (if e = NoHdr then Inr (infile_images, fim_map) else Inl e)
      | Inr (img, infile') \<Rightarrow>
          (case rev_image_table (get_image_id img) of
             None \<Rightarrow> Inl (KeyError_id (get_image_id img))
           | Some (name, desc) \<Rightarrow>
               read_infile infile'
                 (store_image infile_images name (get_image_ver img) img)
                 (fim_map OR push_bit (nat (get_image_id img)) 1)))"
  by pat_completeness auto

lemma ImageHdr_set_from_file_rest:
  "ImageHdr_set_from_file s = Inr (h, s') \<Longrightarrow> s' = drop 24 s \<and> 24 \<le> length s"
  by (auto simp add: ImageHdr_set_from_file_def Let_def hdr_length_def
      split: if_splits prod.splits)

lemma Image_set_from_stream_shorter:
  "Image_set_from_stream s = Inr (img, s') \<Longrightarrow> length s' < length s"
  by (auto simp add: Image_set_from_stream_def Let_def split: sum.splits if_splits
      dest!: ImageHdr_set_from_file_rest)

termination read_infile
  by (relation "measure (\<lambda>(s, d, f). length s)") (auto dest: Image_set_from_stream_shorter)

text \<open>The loop over the input file names; a file that cannot be opened raises.\<close>

fun read_infiles :: "files \<Rightarrow> string list \<Rightarrow> images_dict \<Rightarrow> int \<Rightarrow> error + (images_dict \<times> int)" where
  "read_infiles fs [] infile_images fim_map = Inr (infile_images, fim_map)"
| "read_infiles fs (infn # infnt) infile_images fim_map =
     (case fs infn of
        None \<Rightarrow> Inl (OSError infn)
      | Some infile \<Rightarrow>
          (case read_infile infile infile_images fim_map of
             Inl e \<Rightarrow> Inl e
           | Inr (infile_images', fim_map') \<Rightarrow> read_infiles fs infnt infile_images' fim_map'))"

text \<open>The loop over \<^verbatim>\<open>image_tuples\<close>: the state is \<^verbatim>\<open>cmdline_images\<close>,
  \<^verbatim>\<open>cmdline_image_order\<close> and \<^verbatim>\<open>fim_map\<close>.\<close>

fun read_cmdline :: "files \<Rightarrow> (string \<times> string) list \<Rightarrow> images_dict \<Rightarrow> string list \<Rightarrow> int
    \<Rightarrow> error + (images_dict \<times> string list \<times> int)" where
  "read_cmdline fs [] cmdline_images cmdline_image_order fim_map =
     Inr (cmdline_images, cmdline_image_order, fim_map)"
| "read_cmdline fs ((idver, fn) # image_tuples) cmdline_images cmdline_image_order fim_map =
     (case Image_init_infile fs fn idver of
        Inl e \<Rightarrow> Inl e
      | Inr img \<Rightarrow>
          (case rev_image_table (get_image_id img) of
             None \<Rightarrow> Inl (KeyError_id (get_image_id img))
           | Some (name, desc) \<Rightarrow>
               read_cmdline fs image_tuples
                 (store_image cmdline_images name (get_image_ver img) img)
                 (if name \<notin> set cmdline_image_order then cmdline_image_order @ [name]
                  else cmdline_image_order)
                 (fim_map OR push_bit (nat (get_image_id img)) 1)))"

text \<open>The inner \<^verbatim>\<open>while len(images) > 0\<close> loop of the emission, without the call of
  \<^verbatim>\<open>write\<close>: the result is the images in the state in which they are written, in
  order, and the final \<^verbatim>\<open>fim_map\<close>. Nothing in the loop depends on what was written,
  so the writes are modelled after it, in \<open>write_images\<close>.\<close>

fun emit_images :: "Image list \<Rightarrow> int \<Rightarrow> Image list \<times> int" where
  "emit_images [] fim_map = ([], fim_map)"
| "emit_images (img # images) fim_map =
     (let fim_map' = (if length images = 0
                      then fim_map AND NOT (push_bit (nat (get_image_id img)) 1)
                      else fim_map);
          img = (if length images = 0 then set_next_image_ver img 0
                 else set_next_image_ver img (get_image_ver (hd images)));
          img = set_following_images img fim_map';
          img = img\<lparr>header := (header img)\<lparr>minor := MAJOR_VER\<rparr>\<rparr>;
          img = img\<lparr>header := (header img)\<lparr>minor := MINOR_VER\<rparr>\<rparr>;
          (out, fim_map'') = emit_images images fim_map'
      in (img # out, fim_map''))"

text \<open>The body of the loop \<^verbatim>\<open>for i in image_order\<close>, up to the sorting: \<^verbatim>\<open>images\<close> is
  first the dictionary of the versions of type \<open>i\<close>, the ones from the command line laid
  over the ones from the input files, then the list of its values by ascending key.\<close>

definition merge_images :: "images_dict \<Rightarrow> images_dict \<Rightarrow> string \<Rightarrow> versions" where
  "merge_images infile_images cmdline_images i =
     (let images = [];
          images = (case map_of infile_images i of
                      None \<Rightarrow> images | Some d \<Rightarrow> dict_update images d);
          images = (case map_of cmdline_images i of
                      None \<Rightarrow> images | Some d \<Rightarrow> dict_update images d)
      in images)"

definition sorted_images :: "versions \<Rightarrow> Image list" where
  "sorted_images images = map (\<lambda>x. the (map_of images x)) (sort (map fst images))"

text \<open>The loop \<^verbatim>\<open>for i in image_order\<close>.\<close>

fun emit_types :: "string list \<Rightarrow> images_dict \<Rightarrow> images_dict \<Rightarrow> int \<Rightarrow> Image list" where
  "emit_types [] infile_images cmdline_images fim_map = []"
| "emit_types (i # image_order) infile_images cmdline_images fim_map =
     (let images = merge_images infile_images cmdline_images i
      in if length images = 0 then emit_types image_order infile_images cmdline_images fim_map
         else
           let images = sorted_images images;
               (out, fim_map') = emit_images images fim_map
           in out @ emit_types image_order infile_images cmdline_images fim_map')"

text \<open>The symbolic type name of an image, \<^verbatim>\<open>rev_image_table[img.get_image_id()][0]\<close>, when
  the table has the ID.\<close>

definition name_of :: "Image \<Rightarrow> string option" where
  "name_of img = map_option fst (rev_image_table (get_image_id img))"

text \<open>The invariants of the two dictionaries, for the proofs: the versions stored under a
  name have distinct keys, and every image stored under \<open>name\<close> and key \<open>v\<close> has that
  type name, that version and image data. \<open>seen_ids d\<close> are the numeric IDs of the names
  in \<open>d\<close>, and \<open>fim_ok f S\<close> says that \<open>f\<close> is the bitmap of the set \<open>S\<close>.\<close>

definition versions_ok :: "string \<Rightarrow> versions \<Rightarrow> bool" where
  "versions_ok name vs \<longleftrightarrow>
     distinct (map fst vs) \<and> vs \<noteq> [] \<and>
     (\<forall>v img. map_of vs v = Some img \<longrightarrow>
        name_of img = Some name \<and> get_image_ver img = v \<and> bits img \<noteq> None)"

definition dict_ok :: "images_dict \<Rightarrow> bool" where
  "dict_ok d \<longleftrightarrow> (\<forall>name vs. map_of d name = Some vs \<longrightarrow> versions_ok name vs)"

definition seen_ids :: "images_dict \<Rightarrow> int set" where
  "seen_ids d = {t. \<exists>name desc. rev_image_table t = Some (name, desc) \<and> name \<in> dom (map_of d)}"

definition fim_ok :: "int \<Rightarrow> int set \<Rightarrow> bool" where
  "fim_ok f S \<longleftrightarrow> 0 \<le> f \<and> (\<forall>n. bit f n \<longleftrightarrow> int n \<in> S)"

text \<open>For the statements about the emission: \<open>stamp img nv fim\<close> is \<open>img\<close> as the
  emission loop leaves it (next version, bitmap and minor set, nothing else changed), and
  \<open>emit_runs\<close> is the emission loop over the lists of images of the types, one list for
  each type of \<^verbatim>\<open>image_order\<close>.\<close>

definition stamp :: "Image \<Rightarrow> int \<Rightarrow> int \<Rightarrow> Image" where
  "stamp img nv fim =
     img\<lparr>header := (header img)\<lparr>next_img_ver := nv, following_images := fim,
                                   minor := MINOR_VER\<rparr>\<rparr>"

fun emit_runs :: "Image list list \<Rightarrow> int \<Rightarrow> Image list" where
  "emit_runs [] fim_map = []"
| "emit_runs (r # rs) fim_map =
     (let (out, fim_map') = emit_images r fim_map in out @ emit_runs rs fim_map')"

text \<open>What the proofs need of the lists of images given to \<open>emit_runs\<close>: the images of
  one list have one image ID, which is not negative, and no two lists share an ID.\<close>

fun runs_ok :: "Image list list \<Rightarrow> bool" where
  "runs_ok [] \<longleftrightarrow> True"
| "runs_ok (r # rs) \<longleftrightarrow>
     (\<forall>a \<in> set r. \<forall>b \<in> set r. get_image_id a = get_image_id b) \<and>
     (\<forall>a \<in> set r. 0 \<le> get_image_id a) \<and>
     (\<forall>a \<in> set r. \<forall>r' \<in> set rs. \<forall>b \<in> set r'. get_image_id a \<noteq> get_image_id b) \<and>
     runs_ok rs"

text \<open>The type name of a caller-supplied source as the specification has it: the name
  given, without an optional suffix \<open>-vN\<close>, \<open>N\<close> a non-empty string of digits (in the
  sense of \<^verbatim>\<open>str.isdigit\<close>). And the distinct elements of a list in the order of their
  first occurrence.\<close>

definition strip_version :: "string \<Rightarrow> string" where
  "strip_version idstr =
     (let (img, ver) = rsplit_dash idstr
      in if CHR ''-'' \<in> set idstr \<and> length ver > 1 \<and> hd ver = CHR ''v'' \<and> str_isdigit (tl ver)
         then img else idstr)"

definition first_occurrences :: "'a list \<Rightarrow> 'a list" where
  "first_occurrences xs = rev (remdups (rev xs))"

text \<open>The calls of \<^verbatim>\<open>img.write(outfile)\<close>, in order; the first exception ends them.\<close>

fun write_images :: "Image list \<Rightarrow> bytes \<Rightarrow> error option \<times> bytes" where
  "write_images [] outfile = (None, outfile)"
| "write_images (img # images) outfile =
     (case Image_write img outfile of
        (Some e, outfile') \<Rightarrow> (Some e, outfile')
      | (None, outfile') \<Rightarrow> write_images images outfile')"

text \<open>Everything \<^verbatim>\<open>make_stream\<close> does before it opens the output file, and the images it
  will write: the list of the arguments of \<^verbatim>\<open>img.write\<close>, in order.\<close>

definition make_stream_images :: "files \<Rightarrow> string list \<Rightarrow> (string \<times> string) list \<Rightarrow> bool
    \<Rightarrow> error + Image list" where
  "make_stream_images fs infnt image_tuples expert =
     (case read_infiles fs infnt [] 0 of
        Inl e \<Rightarrow> Inl e
      | Inr (infile_images, fim_map) \<Rightarrow>
          (case read_cmdline fs image_tuples [] [] fim_map of
             Inl e \<Rightarrow> Inl e
           | Inr (cmdline_images, cmdline_image_order, fim_map') \<Rightarrow>
               (let image_order = (if expert then cmdline_image_order else map fst image_list)
                in Inr (emit_types image_order infile_images cmdline_images fim_map'))))"

text \<open>\<^verbatim>\<open>make_stream\<close>: the exception raised, if any, and the content of the output file;
  \<open>None\<close> is an output file that was never opened. (The output file is taken to open; its
  name plays no part.)\<close>

definition make_stream :: "files \<Rightarrow> string list \<Rightarrow> (string \<times> string) list \<Rightarrow> bool
    \<Rightarrow> error option \<times> bytes option" where
  "make_stream fs infnt image_tuples expert =
     (case make_stream_images fs infnt image_tuples expert of
        Inl e \<Rightarrow> (Some e, None)
      | Inr images \<Rightarrow>
          (case write_images images [] of (e, outfile) \<Rightarrow> (e, Some outfile)))"

subsection \<open>\<^verbatim>\<open>dump_stream\<close>\<close>

text \<open>\<^verbatim>\<open>"%d" % n\<close> for a number that is not negative.\<close>

fun dec_str :: "nat \<Rightarrow> string" where
  "dec_str n = (if n < 10 then [char_of (48 + n)]
                else dec_str (n div 10) @ [char_of (48 + n mod 10)])"

text \<open>What \<^verbatim>\<open>dump_stream\<close> prints for an image is kept as the values printed: the length
  and the description, or in verbose mode the header. The files written are kept as
  (name, content), in order.\<close>

datatype dump_line = Summary int string | Verbose ImageHdr

record dump_state =
  printed :: "dump_line list"
  written :: "(string \<times> bytes) list"

function dump_images :: "bytes \<Rightarrow> bool \<Rightarrow> bool \<Rightarrow> bool \<Rightarrow> string \<Rightarrow> dump_state
    \<Rightarrow> error option \<times> dump_state" where
  "dump_images instream verbose do_dump do_extract prefix st =
     (case Image_set_from_stream instream of
        Inl e \<Rightarrow> (if e = NoHdr then (None, st) else (Some e, st))
      | Inr (img, instream') \<Rightarrow>
          (let iid = get_image_id img;
               (fn, desc) = (case rev_image_table iid of
                   Some (name, d) \<Rightarrow> (name, d)
                 | None \<Rightarrow> (''image_id_'' @ dec_str (nat iid),
                             ''Unknown image type, ID '' @ dec_str (nat iid)));
               (fn, desc) = (if minor (header img) \<ge> 2
                   then (fn @ ''-v'' @ dec_str (nat (get_image_ver img)),
                         desc @ '' (version '' @ dec_str (nat (get_image_ver img)) @ '')'')
                   else (fn, desc));
               st = (if do_dump
                   then st\<lparr>printed := printed st @
                          [if verbose then Verbose (header img)
                           else Summary (get_image_length img) desc]\<rparr>
                   else st)
           in if do_extract
              then (case bits img of
                      None \<Rightarrow> (Some TypeError, st)
                    | Some b \<Rightarrow>
                        dump_images instream' verbose do_dump do_extract prefix
                          (st\<lparr>written := written st @ [(prefix @ fn, b)]\<rparr>))
              else dump_images instream' verbose do_dump do_extract prefix st))"
  by pat_completeness auto
termination
  by (relation "measure (\<lambda>(s, v, d, x, p, st). length s)")
     (auto dest: Image_set_from_stream_shorter)

definition dump_stream :: "files \<Rightarrow> bool \<Rightarrow> string \<Rightarrow> bool \<Rightarrow> bool \<Rightarrow> string
    \<Rightarrow> error option \<times> dump_state" where
  "dump_stream fs verbose infn do_dump do_extract prefix =
     (case fs infn of
        None \<Rightarrow> (Some (OSError infn), \<lparr>printed = [], written = []\<rparr>)
      | Some instream \<Rightarrow>
          dump_images instream verbose do_dump do_extract prefix \<lparr>printed = [], written = []\<rparr>)"

subsection \<open>The build branch of \<^verbatim>\<open>main\<close>\<close>

text \<open>After option parsing, without \<^verbatim>\<open>-d\<close> and \<^verbatim>\<open>-x\<close>: \<open>args\<close> are the positional
  arguments, \<open>images\<close> the (option name, value) pairs in command-line order, \<open>e\<close> the
  expert flag. \<^verbatim>\<open>parser.error\<close> ends the program, which is the result \<open>None\<close>.\<close>

definition main_build :: "files \<Rightarrow> string list \<Rightarrow> (string \<times> string) list \<Rightarrow> bool
    \<Rightarrow> (error option \<times> bytes option) option" where
  "main_build fs args images e =
     (if length args > 3 then None
      else if length args \<le> 0 then None
      else if length args = 1
        then (if images = [] then None else Some (make_stream fs [] images e))
      else if length args = 2
        then (if e then None else Some (make_stream fs [args ! 0] images e))
      else (if e then None else Some (make_stream fs [args ! 0, args ! 1] images e)))"

section \<open>The header codec\<close>

subsection \<open>Packing and unpacking\<close>

lemma length_le_bytes [simp]: "length (le_bytes n w) = n"
  by (induction n arbitrary: w) simp_all

lemma le_int_le_bytes: "le_int (le_bytes n w) = take_bit (8 * n) w"
proof (induction n arbitrary: w)
  case 0
  then show ?case by simp
next
  case (Suc n)
  show ?case
    apply (simp add: Suc)
    apply (rule bit_eqI)
    apply (auto simp add: bit_simps uint_word_of_int_eq simp flip: take_bit_eq_mod)
    done
qed

lemma le_int_le_bytes_8: "0 \<le> w \<Longrightarrow> w < 2 ^ 64 \<Longrightarrow> le_int (le_bytes 8 w) = w"
  by (simp add: le_int_le_bytes take_bit_int_eq_self)

lemma unpack_pack:
  assumes "struct_pack_QQQ w0 w1 w2 = Inr bs"
  shows "length bs = 24 \<and> struct_unpack_QQQ (take 24 (bs @ rest)) = (w0, w1, w2)"
proof -
  from assms have r: "0 \<le> w0" "w0 < 2 ^ 64" "0 \<le> w1" "w1 < 2 ^ 64" "0 \<le> w2" "w2 < 2 ^ 64"
    and bs: "bs = le_bytes 8 w0 @ le_bytes 8 w1 @ le_bytes 8 w2"
    by (simp_all add: struct_pack_QQQ_def split: if_splits)
  have len: "length bs = 24" by (simp add: bs)
  have t: "take 24 (bs @ rest) = bs" by (simp add: len)
  show ?thesis
    unfolding t struct_unpack_QQQ_def
    by (simp add: bs len le_int_le_bytes_8 [OF r(1,2)] le_int_le_bytes_8 [OF r(3,4)]
        le_int_le_bytes_8 [OF r(5,6)])
qed

lemma mask_4: "(0xF::int) = mask 4" by (simp add: mask_eq_exp_minus_1)
lemma mask_8: "(0xFF::int) = mask 8" by (simp add: mask_eq_exp_minus_1)
lemma mask_32: "(0xFFFFFFFF::int) = mask 32" by (simp add: mask_eq_exp_minus_1)

lemma hdr_w0_alt: "hdr_w0 ma mi nx cu ii = take_bit 32 magic OR
               push_bit 32 (take_bit 4 ma) OR
               push_bit 36 (take_bit 4 mi) OR
               push_bit 44 (take_bit 4 nx) OR
               push_bit 48 (take_bit 4 cu) OR
               push_bit 52 (take_bit 4 3) OR
               push_bit 56 (take_bit 8 ii)"
  unfolding hdr_w0_def mask_4 mask_8 mask_32 hdr_length_def
  by (simp add: take_bit_eq_mask del: bit_numeral_simps)

lemma hdr_w1_alt: "hdr_w1 len crc = take_bit 32 len OR push_bit 32 (take_bit 32 crc)"
  unfolding hdr_w1_def mask_32
  by (simp add: take_bit_eq_mask del: bit_numeral_simps)

lemmas pack_simps = drop_bit_push_bit take_bit_push_bit drop_bit_take_bit

lemma hdr_w0_range: "0 \<le> hdr_w0 ma mi nx cu ii \<and> hdr_w0 ma mi nx cu ii < 2 ^ 64"
proof -
  have "take_bit 64 (hdr_w0 ma mi nx cu ii) = hdr_w0 ma mi nx cu ii"
    unfolding hdr_w0_alt by (simp add: pack_simps)
  then show ?thesis by (simp add: take_bit_int_eq_self_iff)
qed

lemma hdr_w1_range: "0 \<le> hdr_w1 len crc \<and> hdr_w1 len crc < 2 ^ 64"
proof -
  have "take_bit 64 (hdr_w1 len crc) = hdr_w1 len crc"
    unfolding hdr_w1_alt by (simp add: pack_simps)
  then show ?thesis by (simp add: take_bit_int_eq_self_iff)
qed

lemma w0_magic: "hdr_w0 ma mi nx cu ii AND 0xFFFFFFFF = magic"
proof -
  have "take_bit 32 (hdr_w0 ma mi nx cu ii) = take_bit 32 magic"
    unfolding hdr_w0_alt by (simp add: pack_simps)
  moreover have "take_bit 32 magic = magic"
    by (simp add: take_bit_int_eq_self magic_def)
  ultimately show ?thesis by (simp add: mask_32 take_bit_eq_mask)
qed

lemma w0_major: "drop_bit 32 (hdr_w0 ma mi nx cu ii) AND 0xF = take_bit 4 ma"
proof -
  have "take_bit 4 (drop_bit 32 (hdr_w0 ma mi nx cu ii)) = take_bit 4 ma"
    unfolding hdr_w0_alt by (simp add: pack_simps)
  then show ?thesis by (simp add: mask_4 take_bit_eq_mask)
qed

lemma w0_minor: "drop_bit 36 (hdr_w0 ma mi nx cu ii) AND 0xF = take_bit 4 mi"
proof -
  have "take_bit 4 (drop_bit 36 (hdr_w0 ma mi nx cu ii)) = take_bit 4 mi"
    unfolding hdr_w0_alt by (simp add: pack_simps)
  then show ?thesis by (simp add: mask_4 take_bit_eq_mask)
qed

lemma w0_next: "drop_bit 44 (hdr_w0 ma mi nx cu ii) AND 0xF = take_bit 4 nx"
proof -
  have "take_bit 4 (drop_bit 44 (hdr_w0 ma mi nx cu ii)) = take_bit 4 nx"
    unfolding hdr_w0_alt by (simp add: pack_simps)
  then show ?thesis by (simp add: mask_4 take_bit_eq_mask)
qed

lemma w0_cur: "drop_bit 48 (hdr_w0 ma mi nx cu ii) AND 0xF = take_bit 4 cu"
proof -
  have "take_bit 4 (drop_bit 48 (hdr_w0 ma mi nx cu ii)) = take_bit 4 cu"
    unfolding hdr_w0_alt by (simp add: pack_simps)
  then show ?thesis by (simp add: mask_4 take_bit_eq_mask)
qed

lemma w0_length: "drop_bit 52 (hdr_w0 ma mi nx cu ii) AND 0xF = 3"
proof -
  have "take_bit 4 (drop_bit 52 (hdr_w0 ma mi nx cu ii)) = 3"
    unfolding hdr_w0_alt by (simp add: pack_simps)
  then show ?thesis by (simp add: mask_4 take_bit_eq_mask)
qed

lemma w0_id: "drop_bit 56 (hdr_w0 ma mi nx cu ii) AND 0xFF = take_bit 8 ii"
proof -
  have "take_bit 8 (drop_bit 56 (hdr_w0 ma mi nx cu ii)) = take_bit 8 ii"
    unfolding hdr_w0_alt by (simp add: pack_simps)
  then show ?thesis by (simp add: mask_8 take_bit_eq_mask)
qed

lemma w1_len: "hdr_w1 len crc AND 0xFFFFFFFF = take_bit 32 len"
proof -
  have "take_bit 32 (hdr_w1 len crc) = take_bit 32 len"
    unfolding hdr_w1_alt by (simp add: pack_simps)
  then show ?thesis by (simp add: mask_32 take_bit_eq_mask)
qed

lemma w1_crc: "drop_bit 32 (hdr_w1 len crc) AND 0xFFFFFFFF = take_bit 32 crc"
proof -
  have "take_bit 32 (drop_bit 32 (hdr_w1 len crc)) = take_bit 32 crc"
    unfolding hdr_w1_alt by (simp add: pack_simps)
  then show ?thesis by (simp add: mask_32 take_bit_eq_mask)
qed

lemma ImageHdr_get_bits_words:
  "ImageHdr_get_bits h = struct_pack_QQQ
     (hdr_w0 (major h) (minor h) (next_img_ver h) (cur_img_ver h) (image_id h))
     (hdr_w1 (image_len h) (image_crc h)) (following_images h)"
  unfolding ImageHdr_get_bits_def hdr_w0_def hdr_w1_def Let_def by (rule refl)


lemma decode_encode:
  assumes ma: "major h = 1"
    and mi: "0 \<le> minor h" "minor h \<le> 2"
    and nx: "0 \<le> next_img_ver h" "next_img_ver h < 2 ^ 4"
    and cu: "0 \<le> cur_img_ver h" "cur_img_ver h < 2 ^ 4"
    and ii: "0 \<le> image_id h" "image_id h < 2 ^ 8"
    and len: "0 \<le> image_len h" "image_len h < 2 ^ 32"
    and crc: "0 \<le> image_crc h" "image_crc h < 2 ^ 32"
    and fi: "0 \<le> following_images h" "following_images h < 2 ^ 64"
  shows "\<exists>bs. ImageHdr_get_bits h = Inr bs \<and> length bs = 24 \<and>
           ImageHdr_set_from_file (bs @ rest) = Inr (h, rest)"
proof -
  define w0 where "w0 = hdr_w0 (major h) (minor h) (next_img_ver h) (cur_img_ver h) (image_id h)"
  define w1 where "w1 = hdr_w1 (image_len h) (image_crc h)"
  define bs where "bs = le_bytes 8 w0 @ le_bytes 8 w1 @ le_bytes 8 (following_images h)"
  have enc: "ImageHdr_get_bits h = Inr bs"
    unfolding ImageHdr_get_bits_words struct_pack_QQQ_def bs_def w0_def w1_def
    using hdr_w0_range hdr_w1_range fi by simp
  then have pk: "struct_pack_QQQ w0 w1 (following_images h) = Inr bs"
    by (simp add: ImageHdr_get_bits_words w0_def w1_def)
  have len_bs: "length bs = 24" by (simp add: bs_def)
  have un: "struct_unpack_QQQ bs = (w0, w1, following_images h)"
    using unpack_pack [OF pk, of "[]"] by (simp add: len_bs)
  have f_major: "drop_bit 32 w0 AND 0xF = major h"
    unfolding w0_def w0_major using ma by (simp add: take_bit_int_eq_self)
  have f_minor: "drop_bit 36 w0 AND 0xF = minor h"
    unfolding w0_def w0_minor using mi by (simp add: take_bit_int_eq_self)
  have f_next: "drop_bit 44 w0 AND 0xF = next_img_ver h"
    unfolding w0_def w0_next using nx by (simp add: take_bit_int_eq_self)
  have f_cur: "drop_bit 48 w0 AND 0xF = cur_img_ver h"
    unfolding w0_def w0_cur using cu by (simp add: take_bit_int_eq_self)
  have f_id: "drop_bit 56 w0 AND 0xFF = image_id h"
    unfolding w0_def w0_id using ii by (simp add: take_bit_int_eq_self)
  have f_len: "w1 AND 0xFFFFFFFF = image_len h"
    unfolding w1_def w1_len using len by (simp add: take_bit_int_eq_self)
  have f_crc: "drop_bit 32 w1 AND 0xFFFFFFFF = image_crc h"
    unfolding w1_def w1_crc using crc by (simp add: take_bit_int_eq_self)
  have f_magic: "w0 AND 0xFFFFFFFF = magic" unfolding w0_def by (rule w0_magic)
  have f_length: "drop_bit 52 w0 AND 0xF = 3" unfolding w0_def by (rule w0_length)
  have ne: "bs \<noteq> []" using len_bs by auto
  have dec: "ImageHdr_set_from_file (bs @ rest) = Inr (h, rest)"
    unfolding ImageHdr_set_from_file_def hdr_length_def
    using ma mi ne
    by (simp add: Let_def len_bs un f_major f_minor f_next f_cur f_id f_len f_crc f_magic
        f_length default_major_def default_minor_def MAJOR_VER_def MINOR_VER_def
        del: bit_numeral_simps)
  from enc len_bs dec show ?thesis by blast
qed


subsection \<open>Accepted headers\<close>



lemma and_mask_range_32: "0 \<le> (x::int) AND 0xFFFFFFFF \<and> x AND 0xFFFFFFFF < 4294967296"
  unfolding mask_32 by (simp add: take_bit_int_less_exp [of 32, simplified] flip: take_bit_eq_mask)




text \<open>
  C1. Header round trip: for every header whose fields fit their declared bit widths
  (major, minor, next_img_ver, cur_img_ver 4 bits, image_id 8 bits, image_len and image_crc
  32 bits, following_images 64 bits) and that the decoder accepts (major = 1, minor at most
  2), \<^const>\<open>ImageHdr_get_bits\<close> produces 24 bytes, and decoding them (with anything
  after them in the file) gives the header back in every field and leaves the rest of the
  file.
\<close>

theorem header_round_trip:
  assumes "0 \<le> major h \<and> major h < 2 ^ 4"
    and "0 \<le> minor h \<and> minor h < 2 ^ 4"
    and "0 \<le> next_img_ver h \<and> next_img_ver h < 2 ^ 4"
    and "0 \<le> cur_img_ver h \<and> cur_img_ver h < 2 ^ 4"
    and "0 \<le> image_id h \<and> image_id h < 2 ^ 8"
    and "0 \<le> image_len h \<and> image_len h < 2 ^ 32"
    and "0 \<le> image_crc h \<and> image_crc h < 2 ^ 32"
    and "0 \<le> following_images h \<and> following_images h < 2 ^ 64"
    and "major h = 1" and "minor h \<le> 2"
  shows "\<exists>bs. ImageHdr_get_bits h = Inr bs \<and> length bs = 24 \<and>
           ImageHdr_set_from_file (bs @ rest) = Inr (h, rest)"
  using assms by (intro decode_encode) simp_all

theorem header_round_trip_witness:
  "\<exists>bs. ImageHdr_get_bits \<lparr>major = 1, minor = 2, image_id = 62, next_img_ver = 1,
          cur_img_ver = 0, image_len = 3, image_crc = 3095641200,
          following_images = 576460752303423488\<rparr> = Inr bs \<and> length bs = 24 \<and>
     ImageHdr_set_from_file (bs @ [1, 2, 3]) =
       Inr (\<lparr>major = 1, minor = 2, image_id = 62, next_img_ver = 1,
          cur_img_ver = 0, image_len = 3, image_crc = 3095641200,
          following_images = 576460752303423488\<rparr>, [1, 2, 3])"
  by (rule header_round_trip) simp_all

section \<open>Parsing one record\<close>

lemma and_not_7: "(x::int) AND NOT 7 = 8 * (x div 8)"
proof -
  have "x AND NOT (mask 3) = push_bit 3 (drop_bit 3 x)"
    by (rule bit_eqI) (auto simp add: bit_simps)
  moreover have "(mask 3 :: int) = 7" by (simp add: mask_eq_exp_minus_1)
  ultimately show ?thesis by (simp add: push_bit_eq_mult drop_bit_eq_div)
qed

lemma pad_arith: "8 * (((n::int) + 7) div 8) - n = (8 - n mod 8) mod 8"
  by presburger

lemma num_padding_bytes_eq: "num_padding_bytes n = (8 - n mod 8) mod 8"
  unfolding num_padding_bytes_def and_not_7 by (rule pad_arith)

lemma num_padding_bytes_range: "0 \<le> num_padding_bytes n \<and> num_padding_bytes n < 8"
  unfolding num_padding_bytes_eq by simp

lemma crc32_range: "0 \<le> crc32 bs c \<and> crc32 bs c < 4294967296"
  unfolding crc32_def using uint_bounded [of "NOT (fold crc32_byte bs (NOT (word_of_int c)))"]
  by simp

lemma crc32_and_mask: "crc32 bs c AND 0xFFFFFFFF = crc32 bs c"
  unfolding mask_32 using crc32_range [of bs c]
  by (simp add: take_bit_int_eq_self flip: take_bit_eq_mask)

lemma crc32_append: "crc32 ys (crc32 xs c) = crc32 (xs @ ys) c"
  by (simp add: crc32_def)

lemma unpack_stream:
  "24 \<le> length s \<Longrightarrow>
   struct_unpack_QQQ (take 24 s) = (stream_word0 s, stream_word1 s, stream_word2 s)"
  by (simp add: struct_unpack_QQQ_def stream_word0_def stream_word1_def stream_word2_def
      drop_take min_def)

lemma decode_header:
  "ImageHdr_set_from_file s =
    (if s = [] then Inl NoHdr
     else if length s < 24 then Inl (BadHdr HdrTooShort)
     else if stream_magic s \<noteq> 0x13026642 then Inl (BadHdr (BadMagic (stream_magic s)))
     else if stream_major s \<noteq> 1 then Inl (BadHdr (BadMajor (stream_major s)))
     else if stream_minor s > 2 then Inl (BadHdr (BadMinor (stream_major s)))
     else if stream_hdr_len s \<noteq> 3 then Inl (BadHdr (BadLength (stream_hdr_len s)))
     else Inr (stream_header s, drop 24 s))"
proof (cases "24 \<le> length s")
  case False
  then show ?thesis
    by (auto simp add: ImageHdr_set_from_file_def hdr_length_def Let_def)
next
  case True
  then have ne: "s \<noteq> []" by auto
  show ?thesis
    unfolding ImageHdr_set_from_file_def hdr_length_def Let_def
    using True ne
    by (simp add: unpack_stream stream_magic_def stream_major_def stream_minor_def
        stream_hdr_len_def stream_header_def stream_image_id_def stream_image_len_def
        stream_image_crc_def magic_def default_major_def default_minor_def MAJOR_VER_def
        MINOR_VER_def del: bit_numeral_simps)
qed


lemma stream_image_len_range: "0 \<le> stream_image_len s \<and> stream_image_len s < 4294967296"
  unfolding stream_image_len_def by (rule and_mask_range_32)

text \<open>What \<^verbatim>\<open>Image(instream=...)\<close> does with a stream, case by case: exactly one of
  \<^verbatim>\<open>NoHdr\<close>, a \<^verbatim>\<open>BadHdr\<close>, one of the two stream-corrupt exceptions, or an image and
  the rest of the stream. The CRC is the one of the payload followed by the padding bytes
  that could be read.\<close>

lemma parse_one_record:
  "Image_set_from_stream s =
    (if s = [] then Inl NoHdr
     else if length s < 24 then Inl (BadHdr HdrTooShort)
     else if stream_magic s \<noteq> 0x13026642 then Inl (BadHdr (BadMagic (stream_magic s)))
     else if stream_major s \<noteq> 1 then Inl (BadHdr (BadMajor (stream_major s)))
     else if stream_minor s > 2 then Inl (BadHdr (BadMinor (stream_major s)))
     else if stream_hdr_len s \<noteq> 3 then Inl (BadHdr (BadLength (stream_hdr_len s)))
     else if int (length s) - 24 < stream_image_len s
       then Inl (ImageTooShort (stream_image_id s))
     else if crc32 (stream_payload s @ stream_padding s) 0 \<noteq> stream_image_crc s
       then Inl (CrcMismatch (stream_image_id s) (stream_image_crc s)
                   (crc32 (stream_payload s @ stream_padding s) 0))
     else Inr (\<lparr>header = stream_header s, bits = Some (stream_payload s)\<rparr>,
               drop (stream_record_len s) s))"
proof (cases "ImageHdr_set_from_file s")
  case (Inl e)
  then show ?thesis
    unfolding Image_set_from_stream_def using decode_header [of s]
    by (simp split: if_splits)
next
  case (Inr p)
  then have ok: "s \<noteq> []" "\<not> length s < 24" "stream_magic s = 0x13026642" "stream_major s = 1"
      "\<not> stream_minor s > 2" "stream_hdr_len s = 3"
    and p: "p = (stream_header s, drop 24 s)"
    using decode_header [of s] by (simp_all split: if_splits)
  define len where "len = stream_image_len s"
  have len0: "0 \<le> len" using stream_image_len_range [of s] by (simp add: len_def)
  have hl: "image_len (stream_header s) = len" "image_id (stream_header s) = stream_image_id s"
    "image_crc (stream_header s) = stream_image_crc s"
    by (simp_all add: stream_header_def len_def)
  have short: "int (length (take (nat len) (drop 24 s))) \<noteq> len \<longleftrightarrow> int (length s) - 24 < len"
    using len0 ok(2) by (auto simp add: min_def)
  have pad: "nat (num_padding_bytes len) = nat (stream_pad_len s)"
    by (simp add: num_padding_bytes_eq stream_pad_len_def len_def)
  have dr: "drop (nat (stream_pad_len s) + (nat len + 24)) s = drop (stream_record_len s) s"
    by (simp add: stream_record_len_def len_def add.commute add.left_commute)
  have pl: "take (nat len) (drop 24 s) = stream_payload s"
    by (simp add: stream_payload_def len_def)
  have pd: "take (nat (stream_pad_len s)) (drop (nat len + 24) s) = stream_padding s"
    by (simp add: stream_padding_def len_def add.commute)
  show ?thesis
    unfolding Image_set_from_stream_def Inr p
    using ok
    by (simp add: Let_def hl short pad dr pl pd len0 crc32_append crc32_and_mask len_def [symmetric]
        del: bit_numeral_simps)
qed

lemma crc_zero_byte: "crc32 [0] 0 = 3523407757"
  by code_simp

lemma crc32_Nil: "crc32 [] c = take_bit 32 c"
  by (simp add: crc32_def uint_word_of_int_eq)

text \<open>
  C2. Parsing one record yields \<^verbatim>\<open>NoHdr\<close> on an empty stream, \<^verbatim>\<open>BadHdr\<close> on 1 to 23
  bytes or on a wrong magic, major, minor or header length, a stream-corrupt exception on a
  short payload or a CRC mismatch, and otherwise succeeds and consumes exactly
  \<open>24 + image_len + ((8 - image_len mod 8) mod 8)\<close> bytes. All of this holds of the code
  (\<open>parse_one_record\<close>) except the last part when the stream ends inside the padding:
  the payload read is checked for its length, the padding read is not. The stream below is
  a header announcing a payload of 1 byte (so 7 bytes of padding), with the CRC of that one
  byte, followed by the payload and nothing else. The parser accepts it and consumes 25
  bytes, where the claim requires 32.
\<close>

theorem truncated_padding_accepted:
  "Image_set_from_stream
     [66, 102, 2, 19, 33, 0, 48, 1,  1, 0, 0, 0, 141, 239, 2, 210,  0, 0, 0, 0, 0, 0, 0, 0,  0] =
     Inr (\<lparr>header = \<lparr>major = 1, minor = 2, image_id = 1, next_img_ver = 0, cur_img_ver = 0,
                      image_len = 1, image_crc = 3523407757, following_images = 0\<rparr>,
           bits = Some [0]\<rparr>, []) \<and>
   length [66, 102, 2, 19, 33, 0, 48, 1,  1, 0, 0, 0, 141, 239, 2, 210,
           0, 0, 0, 0, 0, 0, 0, 0,  0 :: byte] = 25 \<and>
   24 + 1 + ((8 - 1 mod 8) mod 8) = (32 :: int)"
  by (simp add: Image_set_from_stream_def ImageHdr_set_from_file_def struct_unpack_QQQ_def
      hdr_length_def magic_def default_major_def default_minor_def MAJOR_VER_def MINOR_VER_def
      num_padding_bytes_def crc_zero_byte crc32_Nil)

section \<open>The image type table\<close>

lemma image_list_names_distinct: "distinct (map fst image_list)"
  by (simp add: image_list_def)

lemma image_list_ids_distinct: "distinct (map (\<lambda>(x, y, z). z) image_list)"
  by (simp add: image_list_def)

lemma image_list_ids_range: "(n, d, t) \<in> set image_list \<Longrightarrow> 0 < t \<and> t < 64"
  by (auto simp add: image_list_def)

lemma image_table_iff: "image_table n = Some (d, t) \<longleftrightarrow> (n, d, t) \<in> set image_list"
proof -
  have "distinct (map fst (map (\<lambda>(x, y, z). (x, (y, z))) image_list))"
    using image_list_names_distinct by (simp add: comp_def case_prod_unfold)
  then have "image_table n = Some (d, t) \<longleftrightarrow> (n, (d, t)) \<in> set (map (\<lambda>(x, y, z). (x, (y, z))) image_list)"
    unfolding image_table_def by (rule map_of_eq_Some_iff)
  then show ?thesis by auto
qed

lemma rev_image_table_iff: "rev_image_table t = Some (n, d) \<longleftrightarrow> (n, d, t) \<in> set image_list"
proof -
  have "distinct (map fst (map (\<lambda>(x, y, z). (z, (x, y))) image_list))"
    using image_list_ids_distinct by (simp add: comp_def case_prod_unfold)
  then have "rev_image_table t = Some (n, d) \<longleftrightarrow> (t, (n, d)) \<in> set (map (\<lambda>(x, y, z). (z, (x, y))) image_list)"
    unfolding rev_image_table_def by (rule map_of_eq_Some_iff)
  moreover have "(t, (n, d)) \<in> set (map (\<lambda>(x, y, z). (z, (x, y))) image_list) \<longleftrightarrow>
      (n, d, t) \<in> set image_list"
    by (force simp add: image_iff)
  ultimately show ?thesis by simp
qed

lemma rev_image_table_range: "rev_image_table t = Some (n, d) \<Longrightarrow> 0 < t \<and> t < 64"
  unfolding rev_image_table_iff by (rule image_list_ids_range)

lemma rev_image_table_inj:
  "rev_image_table t = Some (n, d) \<Longrightarrow> rev_image_table t' = Some (n, d') \<Longrightarrow> t = t'"
  unfolding rev_image_table_iff
  using image_list_names_distinct
  by (metis (no_types, lifting) image_table_iff option.inject prod.inject)

section \<open>The image ID of an accepted header\<close>




section \<open>The assembler\<close>

subsection \<open>The dictionaries and the bitmap\<close>

lemma store_image_map_of:
  "map_of (store_image d name ver img) =
     (map_of d)(name \<mapsto> AList.update ver img (case map_of d name of None \<Rightarrow> [] | Some vs \<Rightarrow> vs))"
proof (cases "map_of d name")
  case None
  then have "name \<notin> fst ` set d" by (simp add: map_of_eq_None_iff)
  then show ?thesis
    by (simp add: store_image_def Let_def None AList.update_conv')
next
  case (Some vs)
  then have "name \<in> fst ` set d" using map_of_eq_None_iff [of d name] by auto
  then show ?thesis
    by (simp add: store_image_def Let_def Some AList.update_conv')
qed

lemma versions_ok_update:
  assumes "name_of img = Some name" "bits img \<noteq> None"
    and "vs = [] \<or> versions_ok name vs"
  shows "versions_ok name (AList.update (get_image_ver img) img vs)"
proof -
  have d: "distinct (map fst vs)" using assms(3) by (auto simp add: versions_ok_def)
  have o: "map_of vs v = Some i \<Longrightarrow>
      name_of i = Some name \<and> get_image_ver i = v \<and> bits i \<noteq> None" for v i
    using assms(3) by (auto simp add: versions_ok_def)
  show ?thesis
    unfolding versions_ok_def AList.update_conv'
    using assms(1,2) o by (simp add: AList.distinct_update d)
qed


lemma dict_ok_store_image:
  assumes "dict_ok d" "name_of img = Some name" "bits img \<noteq> None"
  shows "dict_ok (store_image d name (get_image_ver img) img)"
  unfolding dict_ok_def store_image_map_of
proof (intro allI impI)
  fix n vs
  assume a: "((map_of d)(name \<mapsto> AList.update (get_image_ver img) img
       (case map_of d name of None \<Rightarrow> [] | Some vs \<Rightarrow> vs))) n = Some vs"
  show "versions_ok n vs"
  proof (cases "n = name")
    case True
    have "(case map_of d name of None \<Rightarrow> [] | Some vs \<Rightarrow> vs) = [] \<or>
        versions_ok name (case map_of d name of None \<Rightarrow> [] | Some vs \<Rightarrow> vs)"
      using assms(1) by (auto simp add: dict_ok_def split: option.splits)
    from versions_ok_update [OF assms(2,3) this] a True show ?thesis by simp
  next
    case False
    with a assms(1) show ?thesis by (simp add: dict_ok_def)
  qed
qed

lemma dom_store_image:
  "dom (map_of (store_image d name ver img)) = insert name (dom (map_of d))"
  unfolding store_image_map_of by simp

lemma seen_ids_store_image:
  assumes "rev_image_table t = Some (name, desc)"
  shows "seen_ids (store_image d name ver img) = insert t (seen_ids d)"
proof (rule set_eqI)
  fix x
  have u: "rev_image_table x = Some (name, d') \<Longrightarrow> x = t" for d'
    using assms rev_image_table_inj by blast
  show "x \<in> seen_ids (store_image d name ver img) \<longleftrightarrow> x \<in> insert t (seen_ids d)"
  proof
    assume "x \<in> seen_ids (store_image d name ver img)"
    then obtain n d' where x: "rev_image_table x = Some (n, d')"
      and n: "n \<in> insert name (dom (map_of d))"
      unfolding seen_ids_def dom_store_image by blast
    show "x \<in> insert t (seen_ids d)"
    proof (cases "n = name")
      case True
      with x u show ?thesis by simp
    next
      case False
      with n have "n \<in> dom (map_of d)" by simp
      with x have "x \<in> seen_ids d" unfolding seen_ids_def by blast
      then show ?thesis by simp
    qed
  next
    assume "x \<in> insert t (seen_ids d)"
    then consider "x = t" | "x \<in> seen_ids d" by blast
    then show "x \<in> seen_ids (store_image d name ver img)"
    proof cases
      case 1
      with assms show ?thesis unfolding seen_ids_def dom_store_image by blast
    next
      case 2
      then show ?thesis unfolding seen_ids_def dom_store_image by blast
    qed
  qed
qed

lemma bit_one_shifted: "bit (push_bit m (1::int)) n \<longleftrightarrow> n = m"
  by (auto simp add: bit_exp_iff)

lemma fim_ok_set_bit:
  assumes "fim_ok f S" "0 \<le> t"
  shows "fim_ok (f OR push_bit (nat t) 1) (insert t S)"
proof -
  have "n = nat t \<longleftrightarrow> int n = t" for n using assms(2) by auto
  then show ?thesis
    using assms(1) by (auto simp add: fim_ok_def bit_or_iff bit_exp_iff)
qed

lemma fim_ok_clear_bit:
  assumes "fim_ok f S" "0 \<le> t"
  shows "fim_ok (f AND NOT (push_bit (nat t) 1)) (S - {t})"
proof -
  have "n = nat t \<longleftrightarrow> int n = t" for n using assms(2) by auto
  then show ?thesis
    using assms(1) by (auto simp add: fim_ok_def bit_and_iff bit_not_iff bit_exp_iff)
qed

subsection \<open>Reading the input files and the command line\<close>

lemma Image_set_from_stream_bits:
  "Image_set_from_stream s = Inr (img, s') \<Longrightarrow> bits img \<noteq> None"
  using parse_one_record [of s] by (auto split: if_splits)

lemma name_of_Some: "rev_image_table (get_image_id img) = Some (name, desc) \<Longrightarrow> name_of img = Some name"
  by (simp add: name_of_def)

lemma read_infile_inv:
  assumes "read_infile s d f = Inr (d', f')" "dict_ok d" "fim_ok f (X \<union> seen_ids d)"
  shows "dict_ok d' \<and> fim_ok f' (X \<union> seen_ids d')"
  using assms
proof (induction s d f rule: read_infile.induct)
  case (1 s d f)
  show ?case
  proof (cases "Image_set_from_stream s")
    case (Inl e)
    with "1.prems" show ?thesis
      by (subst (asm) read_infile.simps) (simp split: if_splits)
  next
    case (Inr p)
    obtain img s' where p: "p = (img, s')" by (cases p)
    show ?thesis
    proof (cases "rev_image_table (get_image_id img)")
      case None
      with "1.prems"(1) Inr p show ?thesis
        by (subst (asm) read_infile.simps) simp
    next
      case (Some q)
      obtain name desc where q: "q = (name, desc)" by (cases q)
      have rec: "read_infile s' (store_image d name (get_image_ver img) img)
          (f OR push_bit (nat (get_image_id img)) 1) = Inr (d', f')"
        using "1.prems"(1) by (subst (asm) read_infile.simps) (simp add: Inr p Some q)
      have t: "rev_image_table (get_image_id img) = Some (name, desc)" using Some q by simp
      have ok: "dict_ok (store_image d name (get_image_ver img) img)"
        using "1.prems"(2) name_of_Some [OF t] Image_set_from_stream_bits [OF Inr [unfolded p]]
        by (rule dict_ok_store_image)
      have "fim_ok (f OR push_bit (nat (get_image_id img)) 1)
          (insert (get_image_id img) (X \<union> seen_ids d))"
        using "1.prems"(3) rev_image_table_range [OF t] by (intro fim_ok_set_bit) simp_all
      then have fo: "fim_ok (f OR push_bit (nat (get_image_id img)) 1)
          (X \<union> seen_ids (store_image d name (get_image_ver img) img))"
        by (simp add: seen_ids_store_image [OF t])
      show ?thesis
        using "1.IH" [OF Inr p [symmetric] Some q [symmetric] rec ok fo] .
    qed
  qed
qed


lemma read_infiles_inv:
  assumes "read_infiles fs infnt d f = Inr (d', f')" "dict_ok d" "fim_ok f (X \<union> seen_ids d)"
  shows "dict_ok d' \<and> fim_ok f' (X \<union> seen_ids d')"
  using assms
proof (induction infnt arbitrary: d f)
  case Nil
  then show ?case by simp
next
  case (Cons infn infnt)
  from Cons.prems(1) obtain s where s: "fs infn = Some s"
    by (cases "fs infn") simp_all
  from Cons.prems(1) s obtain d1 f1 where r: "read_infile s d f = Inr (d1, f1)"
    and rest: "read_infiles fs infnt d1 f1 = Inr (d', f')"
    by (cases "read_infile s d f") auto
  from read_infile_inv [OF r Cons.prems(2,3)] Cons.IH [OF rest] show ?case by simp
qed

lemma rev_image_table_0: "rev_image_table 0 = None"
  by (simp add: rev_image_table_def image_list_def)

lemma Image_set_from_file_bits:
  "Image_set_from_file fs fn idstr = Inr img \<Longrightarrow> bits img \<noteq> None"
  by (auto simp add: Image_set_from_file_def Let_def split: sum.splits option.splits prod.splits if_splits)

lemma Image_init_infile_listed:
  assumes "Image_init_infile fs fn idstr = Inr img"
    and "rev_image_table (get_image_id img) = Some (name, desc)"
  shows "fn \<noteq> [] \<and> Image_set_from_file fs fn idstr = Inr img \<and> bits img \<noteq> None"
proof -
  have "fn \<noteq> []"
  proof
    assume "fn = []"
    with assms(1) have "get_image_id img = 0"
      by (auto simp add: Image_init_infile_def get_image_id_def ImageHdr_init_def)
    with assms(2) rev_image_table_0 show False by simp
  qed
  with assms(1) have "Image_set_from_file fs fn idstr = Inr img"
    by (simp add: Image_init_infile_def)
  with \<open>fn \<noteq> []\<close> Image_set_from_file_bits show ?thesis by blast
qed

lemma read_cmdline_inv:
  assumes "read_cmdline fs tuples c ord f = Inr (c', ord', f')"
    and "dict_ok c" "fim_ok f (X \<union> seen_ids c)" "distinct ord" "set ord = dom (map_of c)"
  shows "dict_ok c' \<and> fim_ok f' (X \<union> seen_ids c') \<and> distinct ord' \<and> set ord' = dom (map_of c')"
  using assms
proof (induction tuples arbitrary: c ord f)
  case Nil
  then show ?case by simp
next
  case (Cons tup tuples)
  obtain idver fn where tup: "tup = (idver, fn)" by (cases tup)
  from Cons.prems(1) obtain img where img: "Image_init_infile fs fn idver = Inr img"
    unfolding tup by (cases "Image_init_infile fs fn idver") simp_all
  from Cons.prems(1) img obtain name desc
    where t: "rev_image_table (get_image_id img) = Some (name, desc)"
    unfolding tup by (cases "rev_image_table (get_image_id img)") auto
  let ?c = "store_image c name (get_image_ver img) img"
  let ?o = "if name \<notin> set ord then ord @ [name] else ord"
  let ?f = "f OR push_bit (nat (get_image_id img)) 1"
  have rec: "read_cmdline fs tuples ?c ?o ?f = Inr (c', ord', f')"
    using Cons.prems(1) unfolding tup by (simp add: img t)
  have ok: "dict_ok ?c"
    using Cons.prems(2) name_of_Some [OF t] Image_init_infile_listed [OF img t]
    by (intro dict_ok_store_image) simp_all
  have "fim_ok ?f (insert (get_image_id img) (X \<union> seen_ids c))"
    using Cons.prems(3) rev_image_table_range [OF t] by (intro fim_ok_set_bit) simp_all
  then have fo: "fim_ok ?f (X \<union> seen_ids ?c)"
    by (simp add: seen_ids_store_image [OF t])
  have d: "distinct ?o" using Cons.prems(4) by simp
  have e: "set ?o = dom (map_of ?c)"
    unfolding dom_store_image using Cons.prems(5) by auto
  show ?case using Cons.IH [OF rec ok fo d e] .
qed

subsection \<open>The emission loops\<close>

lemma emit_images_Cons:
  "emit_images (img # images) fim =
     (let fim' = (if images = [] then fim AND NOT (push_bit (nat (get_image_id img)) 1) else fim)
      in (stamp img (if images = [] then 0 else get_image_ver (hd images)) fim' #
            fst (emit_images images fim'), snd (emit_images images fim')))"
  by (simp add: Let_def stamp_def set_next_image_ver_def set_following_images_def
      case_prod_unfold)

lemma length_emit_images [simp]: "length (fst (emit_images imgs fim)) = length imgs"
  by (induction imgs arbitrary: fim) (simp_all add: emit_images_Cons Let_def del: emit_images.simps(2))

lemma snd_emit_images:
  "snd (emit_images imgs fim) =
     (if imgs = [] then fim else fim AND NOT (push_bit (nat (get_image_id (last imgs))) 1))"
  by (induction imgs arbitrary: fim) (simp_all add: emit_images_Cons Let_def del: emit_images.simps(2))

lemma nth_emit_images:
  "k < length imgs \<Longrightarrow>
   fst (emit_images imgs fim) ! k =
     stamp (imgs ! k)
       (if Suc k < length imgs then get_image_ver (imgs ! Suc k) else 0)
       (if Suc k < length imgs then fim
        else fim AND NOT (push_bit (nat (get_image_id (imgs ! k))) 1))"
proof (induction imgs arbitrary: k fim)
  case Nil
  then show ?case by simp
next
  case (Cons img images)
  show ?case
  proof (cases k)
    case 0
    then show ?thesis
      by (cases images) (simp_all add: emit_images_Cons Let_def del: emit_images.simps(2))
  next
    case (Suc j)
    with Cons.prems have j: "j < length images" by simp
    then have ne: "images \<noteq> []" by auto
    show ?thesis
      using Cons.IH [OF j, of fim] Suc ne
      by (simp add: emit_images_Cons Let_def del: emit_images.simps(2))
  qed
qed

lemma stamp_simps [simp]:
  "get_image_id (stamp img nv fim) = get_image_id img"
  "get_image_ver (stamp img nv fim) = get_image_ver img"
  "get_image_length (stamp img nv fim) = get_image_length img"
  "bits (stamp img nv fim) = bits img"
  "name_of (stamp img nv fim) = name_of img"
  "next_img_ver (header (stamp img nv fim)) = nv"
  "following_images (header (stamp img nv fim)) = fim"
  "minor (header (stamp img nv fim)) = MINOR_VER"
  "major (header (stamp img nv fim)) = major (header img)"
  "image_id (header (stamp img nv fim)) = image_id (header img)"
  "image_len (header (stamp img nv fim)) = image_len (header img)"
  "image_crc (header (stamp img nv fim)) = image_crc (header img)"
  "cur_img_ver (header (stamp img nv fim)) = cur_img_ver (header img)"
  by (simp_all add: stamp_def get_image_id_def get_image_ver_def get_image_length_def
      name_of_def)

lemma emit_images_stamped:
  "\<exists>nvs fims. length nvs = length imgs \<and> length fims = length imgs \<and>
     fst (emit_images imgs fim) = map (\<lambda>(img, nv, f). stamp img nv f) (zip imgs (zip nvs fims))"
proof (induction imgs arbitrary: fim)
  case Nil
  show ?case by simp
next
  case (Cons img images)
  let ?f = "if images = [] then fim AND NOT (push_bit (nat (get_image_id img)) 1) else fim"
  from Cons [of ?f] obtain nvs fims where l: "length nvs = length images" "length fims = length images"
    and e: "fst (emit_images images ?f) = map (\<lambda>(img, nv, f). stamp img nv f) (zip images (zip nvs fims))"
    by blast
  show ?case
    apply (rule exI [of _ "(if images = [] then 0 else get_image_ver (hd images)) # nvs"])
    apply (rule exI [of _ "?f # fims"])
    using l e apply (simp add: emit_images_Cons Let_def del: emit_images.simps(2))
    done
qed

lemma map_emit_images:
  assumes "\<And>img nv f. g (stamp img nv f) = g img"
  shows "map g (fst (emit_images imgs fim)) = map g imgs"
proof -
  obtain nvs fims where l: "length nvs = length imgs" "length fims = length imgs"
    and e: "fst (emit_images imgs fim) = map (\<lambda>(img, nv, f). stamp img nv f) (zip imgs (zip nvs fims))"
    using emit_images_stamped by blast
  show ?thesis
    unfolding e using l
    by (intro nth_equalityI) (simp_all add: assms)
qed

lemma emit_runs_Cons:
  "emit_runs (r # rs) fim = fst (emit_images r fim) @ emit_runs rs (snd (emit_images r fim))"
  by (simp add: case_prod_unfold Let_def)

lemma map_emit_runs:
  assumes "\<And>img nv f. g (stamp img nv f) = g img"
  shows "map g (emit_runs R fim) = concat (map (map g) R)"
  by (induction R arbitrary: fim)
     (simp_all add: emit_runs_Cons map_emit_images [where g = g, OF assms] del: emit_runs.simps(2))

lemma emit_types_runs:
  "emit_types order ifd cmd fim =
     emit_runs (map (\<lambda>i. sorted_images (merge_images ifd cmd i)) order) fim"
proof (induction order arbitrary: fim)
  case Nil
  show ?case by simp
next
  case (Cons i order)
  show ?case
  proof (cases "merge_images ifd cmd i = []")
    case True
    then show ?thesis by (simp add: Cons sorted_images_def)
  next
    case False
    then show ?thesis by (simp add: Cons Let_def case_prod_unfold)
  qed
qed

lemma ids_emit_images: "get_image_id ` set (fst (emit_images r fim)) = get_image_id ` set r"
proof -
  have "map get_image_id (fst (emit_images r fim)) = map get_image_id r"
    by (rule map_emit_images) simp
  then have "set (map get_image_id (fst (emit_images r fim))) = set (map get_image_id r)" by simp
  then show ?thesis by simp
qed

lemma ids_emit_runs:
  "get_image_id ` set (emit_runs R fim) = (\<Union>r\<in>set R. get_image_id ` set r)"
proof -
  have "map get_image_id (emit_runs R fim) = concat (map (map get_image_id) R)"
    by (rule map_emit_runs) simp
  then have "set (map get_image_id (emit_runs R fim)) = set (concat (map (map get_image_id) R))"
    by simp
  then show ?thesis by simp
qed

lemma emit_images_following:
  assumes "fst (emit_images r fim) = pre @ x # us"
  shows "following_images (header x) =
     (if us = [] then fim AND NOT (push_bit (nat (get_image_id x)) 1) else fim)"
    and "next_img_ver (header x) = (if us = [] then 0 else get_image_ver (hd us))"
proof -
  let ?k = "length pre"
  have len: "length r = length pre + 1 + length us"
    using arg_cong [OF assms, of length] by simp
  then have k: "?k < length r" by simp
  have x: "x = fst (emit_images r fim) ! ?k" by (simp add: assms)
  have s: "Suc ?k < length r \<longleftrightarrow> us \<noteq> []" using len by auto
  show "following_images (header x) =
     (if us = [] then fim AND NOT (push_bit (nat (get_image_id x)) 1) else fim)"
    unfolding x nth_emit_images [OF k] using s by simp
  have "us \<noteq> [] \<Longrightarrow> hd us = fst (emit_images r fim) ! Suc ?k"
    by (cases us) (simp_all add: assms nth_append)
  moreover have "us \<noteq> [] \<Longrightarrow>
      get_image_ver (fst (emit_images r fim) ! Suc ?k) = get_image_ver (r ! Suc ?k)"
    using s by (simp add: nth_emit_images)
  ultimately show "next_img_ver (header x) = (if us = [] then 0 else get_image_ver (hd us))"
    unfolding x nth_emit_images [OF k] using s by simp
qed

lemma append_eq_split:
  assumes "xs @ ys = pre @ x # post"
  shows "(\<exists>us. xs = pre @ x # us \<and> post = us @ ys) \<or>
         (\<exists>us. pre = xs @ us \<and> ys = us @ x # post)"
proof -
  from assms obtain us where
    "(xs = pre @ us \<and> us @ ys = x # post) \<or> (xs @ us = pre \<and> ys = us @ x # post)"
    unfolding append_eq_append_conv2 by blast
  then show ?thesis
  proof
    assume a: "xs = pre @ us \<and> us @ ys = x # post"
    show ?thesis
    proof (cases us)
      case Nil
      with a show ?thesis by auto
    next
      case (Cons u us')
      with a show ?thesis by auto
    qed
  next
    assume "xs @ us = pre \<and> ys = us @ x # post"
    then show ?thesis by auto
  qed
qed

end
